theory Spec2Isabelle
  imports Main "HOL-Library.Log_Nat"
begin

section \<open>Python values used by the currency converter\<close>

subsection \<open>Exceptions\<close>

text \<open>
  Every exception the program can meet is a value. \<open>ValueError\<close> carries its message;
  \<open>RequestException\<close>, \<open>HTTPError\<close> and \<open>JSONDecodeError\<close> are what the HTTP library
  raises; \<open>AttributeError\<close> is a method call on a value that has no such method.
\<close>

datatype pyerror =
    ValueError string
  | ZeroDivisionError
  | KeyError string
  | AttributeError
  | RequestException
  | HTTPError
  | JSONDecodeError

subsection \<open>Floats: IEEE 754 binary64, round to nearest, ties to even\<close>

text \<open>
  A Python float is a double. A finite double is kept as its sign (\<open>True\<close> is negative)
  and its magnitude, a non-negative rational; \<open>Fin True 0\<close> is \<open>-0.0\<close>.
\<close>

datatype pyfloat = NaN | Infinity bool | Fin bool rat

text \<open>\<open>ilog2 q\<close> is the binary exponent of a positive rational: the floor of its base-2 logarithm.\<close>

definition ilog2 :: "rat \<Rightarrow> int" where
  "ilog2 q = (if 1 \<le> q then bitlen \<lfloor>q\<rfloor> - 1 else - bitlen (\<lceil>1 / q\<rceil> - 1))"

definition round_half_even :: "rat \<Rightarrow> int" where
  "round_half_even m =
     (let f = \<lfloor>m\<rfloor>; d = m - of_int f in
      if d < 1 / 2 then f
      else if 1 / 2 < d then f + 1
      else if even f then f else f + 1)"

text \<open>
  Rounding of an exact magnitude to a double: 53 significant bits, the unit in the last
  place never below \<open>2 powi - 1074\<close> (subnormals), overflow to infinity from \<open>2 ^ 1024\<close>.
\<close>

definition round_to_double :: "bool \<Rightarrow> rat \<Rightarrow> pyfloat" where
  "round_to_double s q =
     (if q = 0 then Fin s 0
      else
        (let e = max (ilog2 q) (- 1022);
             ulp = 2 powi (e - 52);
             r = of_int (round_half_even (q / ulp)) * ulp
         in if 2 ^ 1024 \<le> r then Infinity s else Fin s r))"

text \<open>A float literal of the source denotes the double nearest to its decimal value.\<close>

definition float_lit :: "rat \<Rightarrow> pyfloat" where
  "float_lit q = round_to_double False q"

text \<open>IEEE multiplication, and IEEE division by a divisor that is not zero.\<close>

fun fmul :: "pyfloat \<Rightarrow> pyfloat \<Rightarrow> pyfloat" where
  "fmul (Fin s m) (Fin t n) = round_to_double (s \<noteq> t) (m * n)"
| "fmul (Fin s m) (Infinity t) = (if m = 0 then NaN else Infinity (s \<noteq> t))"
| "fmul (Infinity s) (Fin t n) = (if n = 0 then NaN else Infinity (s \<noteq> t))"
| "fmul (Infinity s) (Infinity t) = Infinity (s \<noteq> t)"
| "fmul _ _ = NaN"

fun fdiv :: "pyfloat \<Rightarrow> pyfloat \<Rightarrow> pyfloat" where
  "fdiv (Fin s m) (Fin t n) = round_to_double (s \<noteq> t) (m / n)"
| "fdiv (Fin s m) (Infinity t) = Fin (s \<noteq> t) 0"
| "fdiv (Infinity s) (Fin t n) = Infinity (s \<noteq> t)"
| "fdiv _ _ = NaN"

fun is_zero :: "pyfloat \<Rightarrow> bool" where
  "is_zero (Fin s m) = (m = 0)"
| "is_zero _ = False"

text \<open>Python's \<open>a / b\<close> on floats raises when \<open>b == 0.0\<close>, whatever \<open>a\<close> is.\<close>

definition truediv :: "pyfloat \<Rightarrow> pyfloat \<Rightarrow> pyerror + pyfloat" where
  "truediv a b = (if is_zero b then Inl ZeroDivisionError else Inr (fdiv a b))"

text \<open>Python's \<open>a == b\<close> on floats: \<open>nan\<close> equals nothing, \<open>0.0 == -0.0\<close>.\<close>

fun float_eq :: "pyfloat \<Rightarrow> pyfloat \<Rightarrow> bool" where
  "float_eq (Fin s m) (Fin t n) = (m = n \<and> (s = t \<or> m = 0))"
| "float_eq (Infinity s) (Infinity t) = (s = t)"
| "float_eq _ _ = False"

text \<open>Python's \<open>x > 0.0\<close>.\<close>

fun float_pos :: "pyfloat \<Rightarrow> bool" where
  "float_pos (Fin s m) = (\<not> s \<and> 0 < m)"
| "float_pos (Infinity s) = (\<not> s)"
| "float_pos NaN = False"

text \<open>
  \<open>normal x\<close>: a finite double whose magnitude is at least \<open>2 powi - 1022\<close>, so that it
  carries the full 53 bits.
\<close>

fun normal :: "pyfloat \<Rightarrow> bool" where
  "normal (Fin s m) = (2 powi (- 1022) \<le> m)"
| "normal _ = False"

text \<open>
  \<open>isclose tol x y\<close>: \<open>x\<close> and \<open>y\<close> are equal, or finite and within the relative
  tolerance \<open>tol\<close> of each other (the test of \<open>math.isclose\<close>).
\<close>

fun signed :: "bool \<Rightarrow> rat \<Rightarrow> rat" where
  "signed s m = (if s then - m else m)"

fun isclose :: "rat \<Rightarrow> pyfloat \<Rightarrow> pyfloat \<Rightarrow> bool" where
  "isclose tol (Fin s m) (Fin t n) =
     (\<bar>signed s m - signed t n\<bar> \<le> tol * max \<bar>m\<bar> \<bar>n\<bar>)"
| "isclose tol x y = float_eq x y"

subsection \<open>Strings and dicts\<close>

text \<open>
  A \<open>str\<close> is kept as the bytes of its UTF-8 encoding, so that it is ASCII when every
  byte is below 128. On an ASCII \<open>str\<close>, \<open>str.upper\<close> maps the letters \<open>a\<close> to
  \<open>z\<close> to \<open>A\<close> to \<open>Z\<close> and leaves every other character as it is. On a
  \<open>str\<close> with a character outside ASCII it follows the case mapping of Unicode
  (accented letters change, the German sharp s becomes \<open>SS\<close>), which belongs to the interpreter
  and not to the program: it is the parameter \<open>unicode_upper\<close>, about which nothing
  is assumed.
\<close>

definition is_ascii :: "string \<Rightarrow> bool" where
  "is_ascii s = list_all (\<lambda>c. (of_char c :: nat) < 128) s"

definition char_upper :: "char \<Rightarrow> char" where
  "char_upper c =
     (case map_of (zip ''abcdefghijklmnopqrstuvwxyz'' ''ABCDEFGHIJKLMNOPQRSTUVWXYZ'') c of
        Some u \<Rightarrow> u
      | None \<Rightarrow> c)"

definition upper :: "(string \<Rightarrow> string) \<Rightarrow> string \<Rightarrow> string" where
  "upper unicode_upper s = (if is_ascii s then map char_upper s else unicode_upper s)"

text \<open>
  A \<open>Dict[str, float]\<close> is the list of its items in insertion order;
  \<open>k in d\<close>, \<open>d.get(k)\<close> and \<open>d[k]\<close> read it through \<open>map_of\<close>.
\<close>

type_synonym rates = "(string \<times> pyfloat) list"

definition dict_contains :: "rates \<Rightarrow> string \<Rightarrow> bool" where
  "dict_contains d k = (map_of d k \<noteq> None)"

definition dict_get :: "rates \<Rightarrow> string \<Rightarrow> pyfloat option" where
  "dict_get d k = map_of d k"

definition dict_getitem :: "rates \<Rightarrow> string \<Rightarrow> pyerror + pyfloat" where
  "dict_getitem d k = (case map_of d k of None \<Rightarrow> Inl (KeyError k) | Some v \<Rightarrow> Inr v)"

section \<open>The program\<close>

subsection \<open>The fallback table\<close>

definition FALLBACK_RATES :: rates where
  "FALLBACK_RATES =
     [(''USD'', float_lit 1),
      (''EUR'', float_lit (92 / 100)),
      (''GBP'', float_lit (79 / 100)),
      (''JPY'', float_lit 150),
      (''CAD'', float_lit (136 / 100)),
      (''AUD'', float_lit (149 / 100))]"

subsection \<open>The HTTP library, as the program sees it\<close>

text \<open>
  The module global \<open>requests\<close> is \<open>None\<close> when the import failed, and otherwise gives
  \<open>requests.get\<close>: for a URL it raises or returns a response. A response has
  \<open>raise_for_status()\<close>, which raises or passes, and \<open>json()\<close>, which raises or returns
  the decoded body. The body is a JSON object, of which the program reads the field
  \<open>rates\<close> only (\<open>None\<close> when the field is missing or null, and a dict of floats
  otherwise, as the return annotation of \<open>get_rates\<close> says), or some other JSON value,
  which has no method \<open>get\<close>.
\<close>

datatype json_data = JsonObject "rates option" | JsonOther

record response =
  raise_for_status :: "pyerror option"
  json :: "pyerror + json_data"

type_synonym requests_get = "string \<Rightarrow> pyerror + response"

definition data_get_rates :: "json_data \<Rightarrow> pyerror + rates option" where
  "data_get_rates data =
     (case data of JsonObject field \<Rightarrow> Inr field | JsonOther \<Rightarrow> Inl AttributeError)"

subsection \<open>\<open>get_rates\<close>\<close>

text \<open>The dict comprehension \<open>{k: v / base_rate for k, v in d.items()}\<close>.\<close>

fun scale_items :: "rates \<Rightarrow> pyfloat \<Rightarrow> pyerror + rates" where
  "scale_items [] base_rate = Inr []"
| "scale_items ((k, v) # kvs) base_rate =
     (case truediv v base_rate of
        Inl e \<Rightarrow> Inl e
      | Inr q \<Rightarrow>
          (case scale_items kvs base_rate of
             Inl e \<Rightarrow> Inl e
           | Inr rest \<Rightarrow> Inr ((k, q) # rest)))"

definition rates_url :: "string \<Rightarrow> string" where
  "rates_url base = ''https://api.exchangerate.host/latest?base='' @ base"

text \<open>The body of the \<open>try\<close> block.\<close>

definition fetch_live :: "requests_get \<Rightarrow> string \<Rightarrow> pyerror + rates" where
  "fetch_live get url =
     (case get url of
        Inl e \<Rightarrow> Inl e
      | Inr resp \<Rightarrow>
          (case raise_for_status resp of
             Some e \<Rightarrow> Inl e
           | None \<Rightarrow>
               (case json resp of
                  Inl e \<Rightarrow> Inl e
                | Inr data \<Rightarrow>
                    (case data_get_rates data of
                       Inl e \<Rightarrow> Inl e
                     | Inr None \<Rightarrow> Inl (ValueError ''No rates in response'')
                     | Inr (Some rates) \<Rightarrow>
                         if rates = [] then Inl (ValueError ''No rates in response'')
                         else Inr rates))))"

definition get_rates ::
  "(string \<Rightarrow> string) \<Rightarrow> requests_get option \<Rightarrow> string \<Rightarrow> pyerror + rates" where
  "get_rates unicode_upper requests base0 =
     (let base = upper unicode_upper base0 in
      case requests of
        None \<Rightarrow>
          (case (case dict_get FALLBACK_RATES base of
                   Some r \<Rightarrow> Inr r
                 | None \<Rightarrow> dict_getitem FALLBACK_RATES ''USD'') of
             Inl e \<Rightarrow> Inl e
           | Inr base_rate \<Rightarrow> scale_items FALLBACK_RATES base_rate)
      | Some get \<Rightarrow>
          (case fetch_live get (rates_url base) of
             Inr rates \<Rightarrow> Inr rates
           | Inl _ \<Rightarrow>
               (case (case dict_get FALLBACK_RATES base of
                        Some r \<Rightarrow> Inr r
                      | None \<Rightarrow> dict_getitem FALLBACK_RATES ''USD'') of
                  Inl e \<Rightarrow> Inl e
                | Inr base_rate \<Rightarrow> scale_items FALLBACK_RATES base_rate)))"

text \<open>
  The live fetch is skipped (no HTTP library) or attempted and failed (the \<open>try\<close> block
  raised).
\<close>

definition fetch_unavailable ::
  "(string \<Rightarrow> string) \<Rightarrow> requests_get option \<Rightarrow> string \<Rightarrow> bool" where
  "fetch_unavailable unicode_upper requests base0 =
     (case requests of
        None \<Rightarrow> True
      | Some get \<Rightarrow> isl (fetch_live get (rates_url (upper unicode_upper base0))))"

subsection \<open>\<open>convert\<close>\<close>

definition convert ::
  "(string \<Rightarrow> string) \<Rightarrow> pyfloat \<Rightarrow> string \<Rightarrow> string \<Rightarrow> rates \<Rightarrow> pyerror + pyfloat" where
  "convert unicode_upper amount from_currency0 to_currency0 rates =
     (let from_currency = upper unicode_upper from_currency0;
          to_currency = upper unicode_upper to_currency0
      in
        if \<not> dict_contains rates from_currency \<or> \<not> dict_contains rates to_currency
        then Inl (ValueError (''Unsupported currency: '' @ from_currency @ '' or '' @ to_currency))
        else
          (case dict_getitem rates from_currency of
             Inl e \<Rightarrow> Inl e
           | Inr rate_from \<Rightarrow>
               (case truediv amount rate_from of
                  Inl e \<Rightarrow> Inl e
                | Inr amount_in_base \<Rightarrow>
                    (case dict_getitem rates to_currency of
                       Inl e \<Rightarrow> Inl e
                     | Inr rate_to \<Rightarrow> Inr (fmul amount_in_base rate_to)))))"

section \<open>Evaluating the float model\<close>

lemma bitlen_numeral: "bitlen (numeral k) = bitlen (numeral k div 2) + 1"
  by (subst compute_bitlen) simp

lemma bitlen_one: "bitlen 1 = 1"
  by (subst compute_bitlen) simp

lemma two_powi_numeral:
  "(2::rat) powi (numeral k) = 2 ^ numeral k"
  "(2::rat) powi (- numeral k) = 1 / 2 ^ numeral k"
  by (simp_all add: power_int_def power_one_over)

lemma floor_rat_numeral:
  "\<lfloor>numeral a / numeral b :: rat\<rfloor> = numeral a div numeral b"
  by (metis floor_divide_of_int_eq of_int_numeral)

lemma floor_rat_minus_numeral:
  "\<lfloor>- (numeral a / numeral b) :: rat\<rfloor> = - numeral a div numeral b"
  by (metis divide_minus_left floor_divide_of_int_eq of_int_neg_numeral of_int_numeral)

lemmas float_eval =
  float_lit_def round_to_double_def ilog2_def round_half_even_def Let_def
  bitlen_numeral bitlen_one two_powi_numeral ceiling_def
  floor_rat_numeral floor_rat_minus_numeral

lemma lit_1: "float_lit 1 = Fin False 1"
  by (simp add: float_eval)

lemma lit_092: "float_lit (92 / 100) = Fin False (8286623314361713 / 9007199254740992)"
  by (simp add: float_eval)

lemma lit_079: "float_lit (79 / 100) = Fin False (889460926405673 / 1125899906842624)"
  by (simp add: float_eval)

lemma lit_150: "float_lit 150 = Fin False 150"
  by (simp add: float_eval)

lemma lit_136: "float_lit (136 / 100) = Fin False (6124895493223875 / 4503599627370496)"
  by (simp add: float_eval)

lemma lit_149: "float_lit (149 / 100) = Fin False (6710363444782039 / 4503599627370496)"
  by (simp add: float_eval)

lemmas lit_values = lit_1 lit_092 lit_079 lit_150 lit_136 lit_149

text \<open>The fallback table with its literals read as doubles.\<close>

lemma fallback_values:
  "FALLBACK_RATES =
     [(''USD'', Fin False 1),
      (''EUR'', Fin False (8286623314361713 / 9007199254740992)),
      (''GBP'', Fin False (889460926405673 / 1125899906842624)),
      (''JPY'', Fin False 150),
      (''CAD'', Fin False (6124895493223875 / 4503599627370496)),
      (''AUD'', Fin False (6710363444782039 / 4503599627370496))]"
  unfolding FALLBACK_RATES_def lit_values ..

section \<open>The rounding error of a normal result\<close>

lemma ilog2_lower:
  assumes "0 < q"
  shows "2 powi (ilog2 q) \<le> q"
proof (cases "1 \<le> q")
  case True
  then have pos: "0 < \<lfloor>q\<rfloor>" by linarith
  have b1: "1 \<le> bitlen \<lfloor>q\<rfloor>"
    using pos bitlen_eq_zero_iff [of "\<lfloor>q\<rfloor>"] bitlen_nonneg [of "\<lfloor>q\<rfloor>"] by linarith
  have "(2::int) ^ nat (bitlen \<lfloor>q\<rfloor> - 1) \<le> \<lfloor>q\<rfloor>"
    using bitlen_bounds [OF pos] by simp
  then have "rat_of_int (2 ^ nat (bitlen \<lfloor>q\<rfloor> - 1)) \<le> rat_of_int \<lfloor>q\<rfloor>"
    by (simp only: of_int_le_iff)
  also have "\<dots> \<le> q" by simp
  finally have "(2::rat) ^ nat (bitlen \<lfloor>q\<rfloor> - 1) \<le> q" by simp
  moreover have "(2::rat) powi (bitlen \<lfloor>q\<rfloor> - 1) = 2 ^ nat (bitlen \<lfloor>q\<rfloor> - 1)"
    using b1 by (simp add: power_int_def)
  ultimately show ?thesis using True by (simp add: ilog2_def)
next
  case False
  define n where "n = \<lceil>1 / q\<rceil>"
  define k where "k = bitlen (n - 1)"
  from False assms have "1 < 1 / q" by (simp add: field_simps)
  then have n2: "2 \<le> n" unfolding n_def by linarith
  then have pos: "0 < n - 1" by simp
  have k0: "0 \<le> k" unfolding k_def by (rule bitlen_nonneg)
  have "n - 1 < 2 ^ nat k" using bitlen_bounds [OF pos] unfolding k_def by simp
  then have "n \<le> 2 ^ nat k" by simp
  then have "rat_of_int n \<le> rat_of_int (2 ^ nat k)" by (simp only: of_int_le_iff)
  then have nle: "rat_of_int n \<le> 2 ^ nat k" by simp
  have "1 / q \<le> rat_of_int n" unfolding n_def by linarith
  with nle have "1 / q \<le> 2 ^ nat k" by linarith
  then have "1 \<le> 2 ^ nat k * q" using assms by (simp add: field_simps)
  then have "1 / 2 ^ nat k \<le> q" by (simp add: field_simps)
  moreover have "(2::rat) powi (- k) = 1 / 2 ^ nat k"
    using k0 by (simp add: power_int_def power_one_over)
  ultimately show ?thesis using False by (simp add: ilog2_def n_def k_def)
qed

lemma round_half_even_near: "\<bar>rat_of_int (round_half_even m) - m\<bar> \<le> 1 / 2"
proof -
  have f: "rat_of_int \<lfloor>m\<rfloor> \<le> m" "m < rat_of_int \<lfloor>m\<rfloor> + 1" by linarith+
  consider "m - rat_of_int \<lfloor>m\<rfloor> < 1 / 2" | "1 / 2 < m - rat_of_int \<lfloor>m\<rfloor>"
    | "m - rat_of_int \<lfloor>m\<rfloor> = 1 / 2" by linarith
  then show ?thesis
  proof cases
    case 1
    then have "round_half_even m = \<lfloor>m\<rfloor>" by (simp add: round_half_even_def Let_def)
    with 1 f show ?thesis by simp
  next
    case 2
    then have "round_half_even m = \<lfloor>m\<rfloor> + 1" by (simp add: round_half_even_def Let_def)
    with 2 f show ?thesis by simp
  next
    case 3
    then have "round_half_even m = \<lfloor>m\<rfloor> \<or> round_half_even m = \<lfloor>m\<rfloor> + 1"
      by (simp add: round_half_even_def Let_def)
    with 3 f show ?thesis by auto
  qed
qed

lemma round_half_even_ge_floor: "\<lfloor>m\<rfloor> \<le> round_half_even m"
  by (simp add: round_half_even_def Let_def)

text \<open>The rounding error of a normal result, relative to the result.\<close>

lemma round_error:
  assumes rd: "round_to_double s q = Fin s' r"
    and q: "0 < q"
    and nr: "2 powi (- 1022) \<le> r"
  shows "\<bar>r - q\<bar> \<le> 2 powi (- 53) * r"
proof -
  define e where "e = max (ilog2 q) (- 1022)"
  define ulp :: rat where "ulp = 2 powi (e - 52)"
  define n where "n = round_half_even (q / ulp)"
  have ulp_pos: "0 < ulp" unfolding ulp_def by simp
  from rd q have r: "r = rat_of_int n * ulp"
    unfolding round_to_double_def Let_def e_def [symmetric] ulp_def [symmetric] n_def [symmetric]
    by (auto split: if_splits)
  have "\<bar>rat_of_int n - q / ulp\<bar> \<le> 1 / 2" unfolding n_def by (rule round_half_even_near)
  then have "\<bar>rat_of_int n - q / ulp\<bar> * ulp \<le> 1 / 2 * ulp"
    using ulp_pos by (simp add: mult_right_mono)
  moreover have "\<bar>rat_of_int n - q / ulp\<bar> * ulp = \<bar>r - q\<bar>"
    using ulp_pos unfolding r by (simp add: abs_mult [symmetric] field_simps flip: abs_of_pos)
  ultimately have err: "\<bar>r - q\<bar> \<le> ulp / 2" by simp
  have two_e: "(2::rat) powi e = 2 ^ 52 * ulp"
    unfolding ulp_def by (simp add: power_int_diff)
  have "2 powi e \<le> r"
  proof (cases "- 1022 \<le> ilog2 q")
    case True
    then have "e = ilog2 q" unfolding e_def by simp
    then have "2 powi e \<le> q" using ilog2_lower [OF q] by simp
    then have "2 ^ 52 \<le> q / ulp" using ulp_pos unfolding two_e by (simp add: field_simps)
    then have "rat_of_int (2 ^ 52) \<le> q / ulp" by simp
    then have "2 ^ 52 \<le> \<lfloor>q / ulp\<rfloor>" by (simp only: le_floor_iff)
    then have "2 ^ 52 \<le> n" using round_half_even_ge_floor [of "q / ulp"] unfolding n_def by linarith
    then have "rat_of_int (2 ^ 52) \<le> rat_of_int n" by (simp only: of_int_le_iff)
    then have "2 ^ 52 * ulp \<le> rat_of_int n * ulp" using ulp_pos by (simp add: mult_right_mono)
    then show ?thesis unfolding two_e r .
  next
    case False
    then have "e = - 1022" unfolding e_def by simp
    with nr show ?thesis by simp
  qed
  then have "ulp / 2 \<le> 2 powi (- 53) * r"
    unfolding two_e by (simp add: power_int_def field_simps)
  with err show ?thesis by linarith
qed

lemma round_normal_pos:
  assumes rd: "round_to_double s q = Fin s' r"
    and nr: "2 powi (- 1022) \<le> r"
  shows "0 < q"
proof (rule ccontr)
  assume "\<not> 0 < q"
  then consider "q = 0" | "q < 0" by linarith
  then show False
  proof cases
    case 1
    with rd have "r = 0" by (simp add: round_to_double_def)
    with nr show False by (simp add: power_int_def)
  next
    case 2
    define e where "e = max (ilog2 q) (- 1022)"
    define ulp :: rat where "ulp = 2 powi (e - 52)"
    define n where "n = round_half_even (q / ulp)"
    have ulp_pos: "0 < ulp" unfolding ulp_def by simp
    from rd 2 have r: "r = rat_of_int n * ulp"
      unfolding round_to_double_def Let_def e_def [symmetric] ulp_def [symmetric] n_def [symmetric]
      by (auto split: if_splits)
    have "q / ulp < 0" using 2 ulp_pos by (simp add: field_simps)
    moreover have "\<bar>rat_of_int n - q / ulp\<bar> \<le> 1 / 2" unfolding n_def by (rule round_half_even_near)
    ultimately have "rat_of_int n < 1" by linarith
    then have "n \<le> 0" by linarith
    then have "rat_of_int n \<le> 0" by simp
    then have "r \<le> 0" unfolding r using ulp_pos by (simp add: mult_le_0_iff)
    moreover have "(0::rat) < 2 powi (- 1022)" by simp
    ultimately show False using nr by linarith
  qed
qed

lemma round_sign: "round_to_double s q = Fin s' r \<Longrightarrow> s' = s"
  by (auto simp: round_to_double_def Let_def split: if_splits)

section \<open>The converter\<close>

lemma convert_present:
  assumes "map_of R (upper uu f) = Some rf" "map_of R (upper uu t) = Some rt"
  shows "convert uu A f t R =
           (case truediv A rf of Inl e \<Rightarrow> Inl e | Inr b \<Rightarrow> Inr (fmul b rt))"
  using assms by (simp add: convert_def dict_contains_def dict_getitem_def Let_def split: sum.splits)

lemma convert_absent:
  assumes "map_of R (upper uu f) = None \<or> map_of R (upper uu t) = None"
  shows "convert uu A f t R =
           Inl (ValueError (''Unsupported currency: '' @ upper uu f @ '' or '' @ upper uu t))"
  using assms by (auto simp add: convert_def dict_contains_def Let_def)

lemma fallback_nonzero: "map_of FALLBACK_RATES k = Some v \<Longrightarrow> \<not> is_zero v"
  by (auto simp: fallback_values split: if_splits)

text \<open>
  Claim C1. For every amount \<open>A\<close>, all strings \<open>f\<close> and \<open>t\<close> and every rate mapping
  \<open>R\<close> of which \<open>f.upper()\<close> and \<open>t.upper()\<close> are keys, \<open>convert\<close> returns what the
  expression \<open>(A / R[f.upper()]) * R[t.upper()]\<close> evaluates to: the float quotient by the
  rate of the source currency, times the rate of the target currency, with no rounding
  step other than those of the two float operations. The keys looked up are the
  uppercased codes, whatever the case mapping of Unicode does outside ASCII. Where the
  rate of the source currency is not zero the result is the float
  \<open>fmul (fdiv A rf) rt\<close>.
\<close>

theorem convert_two_hop:
  assumes "map_of R (upper uu f) = Some rf" and "map_of R (upper uu t) = Some rt"
  shows "convert uu A f t R =
           (case truediv A rf of Inl e \<Rightarrow> Inl e | Inr b \<Rightarrow> Inr (fmul b rt))
         \<and> (\<not> is_zero rf \<longrightarrow> convert uu A f t R = Inr (fmul (fdiv A rf) rt))"
  using convert_present [OF assms] by (simp add: truediv_def)

text \<open>
  Two runs: \<open>convert(100.0, 'usd', 'eur', FALLBACK_RATES)\<close> is \<open>92.0\<close>; and with a case
  mapping that sends the two bytes of a small e with acute accent to those of the capital
  one, the amount \<open>1.0\<close> converted from that small letter to itself, in a mapping whose
  only key is the capital letter, is \<open>1.0\<close>.
\<close>

theorem convert_two_hop_witness:
  "convert id (Fin False 100) ''usd'' ''eur'' FALLBACK_RATES = Inr (Fin False 92)
   \<and> convert (\<lambda>s. if s = [CHR 0xC3, CHR 0xA9] then [CHR 0xC3, CHR 0x89] else s)
        (Fin False 1) [CHR 0xC3, CHR 0xA9] [CHR 0xC3, CHR 0xA9]
        [([CHR 0xC3, CHR 0x89], Fin False 2)] = Inr (Fin False 1)"
proof -
  have f: "map_of FALLBACK_RATES (upper id ''usd'') = Some (Fin False 1)"
    by (simp add: fallback_values upper_def is_ascii_def char_upper_def)
  have t: "map_of FALLBACK_RATES (upper id ''eur'')
             = Some (Fin False (8286623314361713 / 9007199254740992))"
    by (simp add: fallback_values upper_def is_ascii_def char_upper_def)
  have m: "fmul (fdiv (Fin False 100) (Fin False 1))
             (Fin False (8286623314361713 / 9007199254740992)) = Fin False 92"
    by (simp add: float_eval)
  have z: "\<not> is_zero (Fin False 1)" by simp
  from convert_two_hop [OF f t, of "Fin False 100"] z
  have "convert id (Fin False 100) ''usd'' ''eur'' FALLBACK_RATES
          = Inr (fmul (fdiv (Fin False 100) (Fin False 1))
                  (Fin False (8286623314361713 / 9007199254740992)))"
    by blast
  then have 1: "convert id (Fin False 100) ''usd'' ''eur'' FALLBACK_RATES = Inr (Fin False 92)"
    by (simp only: m)
  let ?uu = "\<lambda>s. if s = [CHR 0xC3, CHR 0xA9] then [CHR 0xC3, CHR 0x89] else s"
  have e: "map_of [([CHR 0xC3, CHR 0x89], Fin False 2)] (upper ?uu [CHR 0xC3, CHR 0xA9])
             = Some (Fin False 2)"
    by (simp add: upper_def is_ascii_def)
  have m2: "fmul (fdiv (Fin False 1) (Fin False 2)) (Fin False 2) = Fin False 1"
    by (simp add: float_eval)
  have z2: "\<not> is_zero (Fin False 2)" by simp
  from convert_two_hop [OF e e, of "Fin False 1"] z2
  have "convert ?uu (Fin False 1) [CHR 0xC3, CHR 0xA9] [CHR 0xC3, CHR 0xA9]
          [([CHR 0xC3, CHR 0x89], Fin False 2)]
          = Inr (fmul (fdiv (Fin False 1) (Fin False 2)) (Fin False 2))"
    by blast
  then have 2: "convert ?uu (Fin False 1) [CHR 0xC3, CHR 0xA9] [CHR 0xC3, CHR 0xA9]
          [([CHR 0xC3, CHR 0x89], Fin False 2)] = Inr (Fin False 1)"
    by (simp only: m2)
  from 1 2 show ?thesis by (rule conjI)
qed

text \<open>
  Claim C2, as the code has it. \<open>convert\<close> signals two errors and no other. It fails
  with the unsupported-currency error exactly when \<open>f.upper()\<close> or \<open>t.upper()\<close> is not a
  key of the rate mapping, and with \<open>ZeroDivisionError\<close> exactly when both are keys and
  the rate of the source currency is \<open>0.0\<close> or \<open>-0.0\<close>. So where the rate of the source
  currency is not zero the unsupported-currency error is the only one, and with both
  codes present a value is returned whatever the amount is: the amount is not checked.
\<close>

theorem convert_errors:
  "(convert uu A f t R = Inl e)
      = (e = ValueError (''Unsupported currency: '' @ upper uu f @ '' or '' @ upper uu t)
           \<and> (map_of R (upper uu f) = None \<or> map_of R (upper uu t) = None)
         \<or> e = ZeroDivisionError
           \<and> (\<exists>z. map_of R (upper uu f) = Some z \<and> is_zero z)
           \<and> map_of R (upper uu t) \<noteq> None)
   \<and> ((convert uu A f t R
         = Inl (ValueError (''Unsupported currency: '' @ upper uu f @ '' or '' @ upper uu t)))
        = (map_of R (upper uu f) = None \<or> map_of R (upper uu t) = None))
   \<and> ((\<exists>rf. map_of R (upper uu f) = Some rf \<and> \<not> is_zero rf)
        \<and> map_of R (upper uu t) \<noteq> None
        \<longrightarrow> (\<exists>y. convert uu A f t R = Inr y))"
proof (cases "map_of R (upper uu f) = None \<or> map_of R (upper uu t) = None")
  case True
  then show ?thesis using convert_absent [OF True, of A] by auto
next
  case False
  then obtain rf rt where k: "map_of R (upper uu f) = Some rf" "map_of R (upper uu t) = Some rt"
    by auto
  show ?thesis
  proof (cases "is_zero rf")
    case True
    with k convert_present [OF k, of A] show ?thesis by (auto simp: truediv_def)
  next
    case False
    with k convert_present [OF k, of A] show ?thesis by (auto simp: truediv_def)
  qed
qed

theorem convert_errors_witness:
  "convert id (Fin False 5) ''ZZZ'' ''USD'' FALLBACK_RATES
     = Inl (ValueError ''Unsupported currency: ZZZ or USD'')
   \<and> (\<exists>y. convert id (Fin True 7) ''usd'' ''jpy'' FALLBACK_RATES = Inr y)"
proof -
  have u: "upper id ''ZZZ'' = ''ZZZ''" "upper id ''USD'' = ''USD''" "upper id ''usd'' = ''USD''"
    "upper id ''jpy'' = ''JPY''"
    by (simp_all add: upper_def is_ascii_def char_upper_def)
  have a: "map_of FALLBACK_RATES (upper id ''ZZZ'') = None"
    unfolding u by (simp add: fallback_values)
  have p: "\<exists>rf. map_of FALLBACK_RATES (upper id ''usd'') = Some rf \<and> \<not> is_zero rf"
    "map_of FALLBACK_RATES (upper id ''jpy'') \<noteq> None"
    unfolding u by (simp_all add: fallback_values)
  have "convert id (Fin False 5) ''ZZZ'' ''USD'' FALLBACK_RATES
          = Inl (ValueError (''Unsupported currency: '' @ upper id ''ZZZ'' @ '' or '' @ upper id ''USD''))"
    using convert_errors [of id "Fin False 5" "''ZZZ''" "''USD''" FALLBACK_RATES] a by blast
  then have 1: "convert id (Fin False 5) ''ZZZ'' ''USD'' FALLBACK_RATES
          = Inl (ValueError ''Unsupported currency: ZZZ or USD'')"
    unfolding u by simp
  have 2: "\<exists>y. convert id (Fin True 7) ''usd'' ''jpy'' FALLBACK_RATES = Inr y"
    using convert_errors [of id "Fin True 7" "''usd''" "''jpy''" FALLBACK_RATES] p by blast
  from 1 2 show ?thesis by (rule conjI)
qed

text \<open>
  The unsupported-currency error is not the only one: with both codes keys of the
  mapping and the rate \<open>0.0\<close> for the source currency, \<open>convert\<close> fails with
  \<open>ZeroDivisionError\<close>.
\<close>

theorem convert_errors_counterexample:
  "map_of [(''JPY'', Fin False 0), (''USD'', Fin False 1)] (upper id ''JPY'') = Some (Fin False 0)
   \<and> map_of [(''JPY'', Fin False 0), (''USD'', Fin False 1)] (upper id ''USD'') = Some (Fin False 1)
   \<and> convert id (Fin False 100) ''JPY'' ''USD'' [(''JPY'', Fin False 0), (''USD'', Fin False 1)]
       = Inl ZeroDivisionError
   \<and> ZeroDivisionError \<noteq> ValueError ''Unsupported currency: JPY or USD''"
  by (simp add: convert_def dict_contains_def dict_getitem_def truediv_def
      upper_def is_ascii_def char_upper_def)

text \<open>
  Claim C10. The division of \<open>convert\<close> has no guard against zero. When no rate of the
  mapping is zero and both codes are present, \<open>convert\<close> returns a value; when the
  rate of the source currency is \<open>0.0\<close> (or \<open>-0.0\<close>) and both codes are present,
  it fails with \<open>ZeroDivisionError\<close>, not with the unsupported-currency error.
\<close>

theorem convert_zero_rate:
  "(map_of R (upper uu f) \<noteq> None \<and> map_of R (upper uu t) \<noteq> None
      \<and> (\<forall>k v. map_of R k = Some v \<longrightarrow> \<not> is_zero v)
        \<longrightarrow> (\<exists>y. convert uu A f t R = Inr y))
   \<and> (\<forall>z. map_of R (upper uu f) = Some z \<and> is_zero z \<and> map_of R (upper uu t) \<noteq> None
        \<longrightarrow> convert uu A f t R = Inl ZeroDivisionError)"
proof (intro conjI impI allI)
  assume h: "map_of R (upper uu f) \<noteq> None \<and> map_of R (upper uu t) \<noteq> None
      \<and> (\<forall>k v. map_of R k = Some v \<longrightarrow> \<not> is_zero v)"
  then obtain rf rt where k: "map_of R (upper uu f) = Some rf" "map_of R (upper uu t) = Some rt"
    by auto
  with h have "\<not> is_zero rf" by blast
  then show "\<exists>y. convert uu A f t R = Inr y"
    using convert_present [OF k, of A] by (simp add: truediv_def)
next
  fix z
  assume h: "map_of R (upper uu f) = Some z \<and> is_zero z \<and> map_of R (upper uu t) \<noteq> None"
  then obtain rt where k: "map_of R (upper uu f) = Some z" "map_of R (upper uu t) = Some rt"
    by auto
  show "convert uu A f t R = Inl ZeroDivisionError"
    using convert_present [OF k, of A] h by (simp add: truediv_def)
qed

theorem convert_zero_rate_witness:
  "(\<exists>y. convert id (Fin False 10) ''usd'' ''eur'' [(''USD'', Fin False 1), (''EUR'', Fin False 2)]
      = Inr y)
   \<and> convert id (Fin False 10) ''usd'' ''eur'' [(''USD'', Fin False 0), (''EUR'', Fin False 2)]
      = Inl ZeroDivisionError"
proof -
  have u: "upper id ''usd'' = ''USD''" "upper id ''eur'' = ''EUR''"
    by (simp_all add: upper_def is_ascii_def char_upper_def)
  have nz: "\<forall>k v. map_of [(''USD'', Fin False 1), (''EUR'', Fin False 2)] k = Some v
              \<longrightarrow> \<not> is_zero v"
    by (auto split: if_splits)
  have p: "map_of [(''USD'', Fin False 1), (''EUR'', Fin False 2)] (upper id ''usd'') \<noteq> None"
    "map_of [(''USD'', Fin False 1), (''EUR'', Fin False 2)] (upper id ''eur'') \<noteq> None"
    unfolding u by simp_all
  have q: "map_of [(''USD'', Fin False 0), (''EUR'', Fin False 2)] (upper id ''usd'')
             = Some (Fin False 0)"
    "is_zero (Fin False 0)"
    "map_of [(''USD'', Fin False 0), (''EUR'', Fin False 2)] (upper id ''eur'') \<noteq> None"
    unfolding u by simp_all
  have 1: "\<exists>y. convert id (Fin False 10) ''usd'' ''eur''
                 [(''USD'', Fin False 1), (''EUR'', Fin False 2)] = Inr y"
    using convert_zero_rate [of "[(''USD'', Fin False 1), (''EUR'', Fin False 2)]" id
        "''usd''" "''eur''" "Fin False 10"] nz p by blast
  have 2: "convert id (Fin False 10) ''usd'' ''eur''
             [(''USD'', Fin False 0), (''EUR'', Fin False 2)] = Inl ZeroDivisionError"
    using convert_zero_rate [of "[(''USD'', Fin False 0), (''EUR'', Fin False 2)]" id
        "''usd''" "''eur''" "Fin False 10"] q by blast
  from 1 2 show ?thesis by blast
qed

section \<open>The rate provider\<close>

lemma usd_rate: "dict_getitem FALLBACK_RATES ''USD'' = Inr (Fin False 1)"
  by (simp add: dict_getitem_def fallback_values)

lemma scale_items_nonzero:
  "\<not> is_zero f \<Longrightarrow> scale_items d f = Inr (map (\<lambda>(k, v). (k, fdiv v f)) d)"
  by (induction d) (auto simp: truediv_def)

lemma fallback_cases:
  assumes "map_of FALLBACK_RATES k = Some r"
  shows "(k = ''USD'' \<and> r = Fin False 1)
       \<or> (k = ''EUR'' \<and> r = Fin False (8286623314361713 / 9007199254740992))
       \<or> (k = ''GBP'' \<and> r = Fin False (889460926405673 / 1125899906842624))
       \<or> (k = ''JPY'' \<and> r = Fin False 150)
       \<or> (k = ''CAD'' \<and> r = Fin False (6124895493223875 / 4503599627370496))
       \<or> (k = ''AUD'' \<and> r = Fin False (6710363444782039 / 4503599627370496))"
  using assms unfolding fallback_values by (simp split: if_splits)

text \<open>What \<open>get_rates\<close> returns when the live fetch is skipped or has failed.\<close>

lemma get_rates_unavailable:
  assumes "fetch_unavailable uu requests base"
  shows "get_rates uu requests base =
           scale_items FALLBACK_RATES
             (case map_of FALLBACK_RATES (upper uu base) of Some r \<Rightarrow> r | None \<Rightarrow> Fin False 1)"
proof (cases requests)
  case None
  then show ?thesis
    by (simp add: get_rates_def dict_get_def usd_rate split: option.splits)
next
  case (Some get)
  with assms obtain e where "fetch_live get (rates_url (upper uu base)) = Inl e"
    by (auto simp: fetch_unavailable_def isl_def)
  with Some show ?thesis
    by (simp add: get_rates_def dict_get_def usd_rate split: option.splits)
qed

lemma factor_nonzero:
  "\<not> is_zero (case map_of FALLBACK_RATES k of Some r \<Rightarrow> r | None \<Rightarrow> Fin False 1)"
  by (auto simp: fallback_nonzero split: option.splits)

text \<open>The fallback table divided by each of its own rates, evaluated.\<close>

lemma table_USD:
  "map (\<lambda>(k, v). (k, fdiv v (Fin False 1))) FALLBACK_RATES =
     [(''USD'', Fin False 1),
      (''EUR'', Fin False (8286623314361713 / 9007199254740992)),
      (''GBP'', Fin False (889460926405673 / 1125899906842624)),
      (''JPY'', Fin False 150),
      (''CAD'', Fin False (6124895493223875 / 4503599627370496)),
      (''AUD'', Fin False (6710363444782039 / 4503599627370496))]"
  unfolding fallback_values by (simp add: float_eval)

lemma table_EUR:
  "map (\<lambda>(k, v). (k, fdiv v (Fin False (8286623314361713 / 9007199254740992)))) FALLBACK_RATES =
     [(''USD'', Fin False (2447608493136139 / 2251799813685248)),
      (''EUR'', Fin False 1),
      (''GBP'', Fin False (966805354788775 / 1125899906842624)),
      (''JPY'', Fin False (2868291202893913 / 17592186044416)),
      (''CAD'', Fin False (6657495101330299 / 4503599627370496)),
      (''AUD'', Fin False (3646936654772847 / 2251799813685248))]"
  unfolding fallback_values by (simp add: float_eval)

lemma table_GBP:
  "map (\<lambda>(k, v). (k, fdiv v (Fin False (889460926405673 / 1125899906842624)))) FALLBACK_RATES =
     [(''USD'', Fin False (5700759021987969 / 4503599627370496)),
      (''EUR'', Fin False (1311174575057233 / 1125899906842624)),
      (''GBP'', Fin False 1),
      (''JPY'', Fin False (835072122361519 / 4398046511104)),
      (''CAD'', Fin False (7753032269903639 / 4503599627370496)),
      (''AUD'', Fin False (4247065471381037 / 2251799813685248))]"
  unfolding fallback_values by (simp add: float_eval)

lemma table_JPY:
  "map (\<lambda>(k, v). (k, fdiv v (Fin False 150))) FALLBACK_RATES =
     [(''USD'', Fin False (7686143364045647 / 1152921504606846976)),
      (''EUR'', Fin False (7071251894921995 / 1152921504606846976)),
      (''GBP'', Fin False (6072053257596061 / 1152921504606846976)),
      (''JPY'', Fin False 1),
      (''CAD'', Fin False (81665273242985 / 9007199254740992)),
      (''AUD'', Fin False (5726176806214007 / 576460752303423488))]"
  unfolding fallback_values by (simp add: float_eval)

lemma table_CAD:
  "map (\<lambda>(k, v). (k, fdiv v (Fin False (6124895493223875 / 4503599627370496)))) FALLBACK_RATES =
     [(''USD'', Fin False (6622940628486023 / 9007199254740992)),
      (''EUR'', Fin False (6093105378207141 / 9007199254740992)),
      (''GBP'', Fin False (2616061548251979 / 4503599627370496)),
      (''JPY'', Fin False (3880629274503529 / 35184372088832)),
      (''CAD'', Fin False 1),
      (''AUD'', Fin False (4934090768222087 / 4503599627370496))]"
  unfolding fallback_values by (simp add: float_eval)

lemma table_AUD:
  "map (\<lambda>(k, v). (k, fdiv v (Fin False (6710363444782039 / 4503599627370496)))) FALLBACK_RATES =
     [(''USD'', Fin False (6045100170967109 / 9007199254740992)),
      (''EUR'', Fin False (1390373039322435 / 2251799813685248)),
      (''GBP'', Fin False (298476820941501 / 562949953421312)),
      (''JPY'', Fin False (7084101762852081 / 70368744177664)),
      (''CAD'', Fin False (8221336232515269 / 9007199254740992)),
      (''AUD'', Fin False 1)]"
  unfolding fallback_values by (simp add: float_eval)

lemma upper_keys:
  "upper uu ''USD'' = ''USD''" "upper uu ''EUR'' = ''EUR''" "upper uu ''GBP'' = ''GBP''"
  "upper uu ''JPY'' = ''JPY''" "upper uu ''CAD'' = ''CAD''" "upper uu ''AUD'' = ''AUD''"
  by (simp_all add: upper_def is_ascii_def char_upper_def)

lemma fallback_keys:
  "map fst FALLBACK_RATES = [''USD'', ''EUR'', ''GBP'', ''JPY'', ''CAD'', ''AUD'']"
  by (simp add: fallback_values)

lemma request_fails: "fetch_unavailable uu (Some (\<lambda>url. Inl RequestException)) base"
  by (simp add: fetch_unavailable_def fetch_live_def)

lemma scaled_by_factor:
  "scale_items FALLBACK_RATES
     (case map_of FALLBACK_RATES k of Some r \<Rightarrow> r | None \<Rightarrow> Fin False 1) =
   Inr (map (\<lambda>(k', v). (k', fdiv v
          (case map_of FALLBACK_RATES k of Some r \<Rightarrow> r | None \<Rightarrow> Fin False 1)))
        FALLBACK_RATES)"
  by (rule scale_items_nonzero) (rule factor_nonzero)

text \<open>
  Claim C3. When the live fetch fails or is skipped, \<open>get_rates base\<close> returns the
  fallback table with every value divided by the normalization factor: the fallback rate
  of the uppercased base when it is a key of the table, and the rate \<open>1.0\<close> of USD
  otherwise. For a base that is not a key, the result is the fallback table itself.
\<close>

theorem get_rates_fallback:
  assumes "fetch_unavailable uu requests base"
  shows "get_rates uu requests base =
           Inr (map (\<lambda>(k, v). (k, fdiv v
                  (case map_of FALLBACK_RATES (upper uu base) of
                     Some r \<Rightarrow> r
                   | None \<Rightarrow> float_lit 1)))
                FALLBACK_RATES)
         \<and> map_of FALLBACK_RATES ''USD'' = Some (float_lit 1)
         \<and> (map_of FALLBACK_RATES (upper uu base) = None \<longrightarrow>
              get_rates uu requests base = Inr FALLBACK_RATES)"
proof -
  have 1: "get_rates uu requests base =
           Inr (map (\<lambda>(k, v). (k, fdiv v
                  (case map_of FALLBACK_RATES (upper uu base) of
                     Some r \<Rightarrow> r
                   | None \<Rightarrow> float_lit 1)))
                FALLBACK_RATES)"
    unfolding lit_1 get_rates_unavailable [OF assms] by (rule scaled_by_factor)
  have 2: "map_of FALLBACK_RATES ''USD'' = Some (float_lit 1)"
    by (simp add: FALLBACK_RATES_def)
  have 3: "get_rates uu requests base = Inr FALLBACK_RATES"
    if "map_of FALLBACK_RATES (upper uu base) = None"
  proof -
    have "map (\<lambda>(k, v). (k, fdiv v (Fin False 1))) FALLBACK_RATES = FALLBACK_RATES"
      unfolding table_USD unfolding fallback_values ..
    with 1 that show ?thesis by (simp add: lit_1)
  qed
  from 1 2 3 show ?thesis by blast
qed

theorem get_rates_fallback_witness:
  "get_rates id None ''xyz'' = Inr FALLBACK_RATES
   \<and> get_rates id (Some (\<lambda>url. Inl RequestException)) ''eur'' =
       Inr (map (\<lambda>(k, v). (k, fdiv v (float_lit (92 / 100)))) FALLBACK_RATES)"
proof -
  have a: "fetch_unavailable id None ''xyz''" by (simp add: fetch_unavailable_def)
  have u: "upper id ''xyz'' = ''XYZ''" "upper id ''eur'' = ''EUR''"
    by (simp_all add: upper_def is_ascii_def char_upper_def)
  have n: "map_of FALLBACK_RATES (upper id ''xyz'') = None"
    unfolding u by (simp add: fallback_values)
  have e: "map_of FALLBACK_RATES (upper id ''eur'') = Some (float_lit (92 / 100))"
    unfolding u by (simp add: FALLBACK_RATES_def)
  have 1: "get_rates id None ''xyz'' = Inr FALLBACK_RATES"
    using get_rates_fallback [OF a] n by blast
  have 2: "get_rates id (Some (\<lambda>url. Inl RequestException)) ''eur'' =
       Inr (map (\<lambda>(k, v). (k, fdiv v (float_lit (92 / 100)))) FALLBACK_RATES)"
    using get_rates_fallback [OF request_fails [of id "''eur''"]] unfolding e by simp
  from 1 2 show ?thesis by blast
qed

text \<open>The ways the \<open>try\<close> block raises.\<close>

lemma fetch_live_failure_modes:
  "get url = Inl e \<Longrightarrow> fetch_live get url = Inl e"
  "get url = Inr resp \<Longrightarrow> raise_for_status resp = Some e \<Longrightarrow> fetch_live get url = Inl e"
  "get url = Inr resp \<Longrightarrow> raise_for_status resp = None \<Longrightarrow> json resp = Inl e
     \<Longrightarrow> fetch_live get url = Inl e"
  "get url = Inr resp \<Longrightarrow> raise_for_status resp = None \<Longrightarrow> json resp = Inr JsonOther
     \<Longrightarrow> fetch_live get url = Inl AttributeError"
  "get url = Inr resp \<Longrightarrow> raise_for_status resp = None
     \<Longrightarrow> json resp = Inr (JsonObject None) \<or> json resp = Inr (JsonObject (Some []))
     \<Longrightarrow> fetch_live get url = Inl (ValueError ''No rates in response'')"
  by (auto simp: fetch_live_def data_get_rates_def)

text \<open>
  Claim C4. \<open>get_rates\<close> never fails: whatever the HTTP library does (absent, raising
  on the request, on the status, on the decoding, a body that is no object, a missing or
  empty field \<open>rates\<close>), a mapping is returned; it is the live mapping when the fetch
  succeeded and the normalized fallback table otherwise.
\<close>

theorem get_rates_total:
  "\<exists>m. get_rates uu requests base = Inr m
       \<and> (m = map (\<lambda>(k, v). (k, fdiv v
                 (case map_of FALLBACK_RATES (upper uu base) of
                    Some r \<Rightarrow> r
                  | None \<Rightarrow> Fin False 1)))
               FALLBACK_RATES
          \<or> (\<exists>get. requests = Some get \<and> fetch_live get (rates_url (upper uu base)) = Inr m))"
proof (cases "fetch_unavailable uu requests base")
  case True
  show ?thesis
    unfolding get_rates_unavailable [OF True] scaled_by_factor by simp
next
  case False
  then obtain get where g: "requests = Some get"
    by (cases requests) (auto simp: fetch_unavailable_def)
  with False obtain m where "fetch_live get (rates_url (upper uu base)) = Inr m"
    by (cases "fetch_live get (rates_url (upper uu base))") (auto simp: fetch_unavailable_def)
  with g show ?thesis by (simp add: get_rates_def)
qed

text \<open>Every rate of a normalized fallback table is greater than zero.\<close>

lemma scaled_pos:
  "\<forall>v \<in> snd ` set (map (\<lambda>(k', v). (k', fdiv v
      (case map_of FALLBACK_RATES k of Some r \<Rightarrow> r | None \<Rightarrow> Fin False 1))) FALLBACK_RATES).
     float_pos v"
proof (cases "map_of FALLBACK_RATES k")
  case None
  then show ?thesis by (simp add: table_USD)
next
  case (Some r)
  from fallback_cases [OF Some] show ?thesis
  proof (elim disjE conjE)
    assume "r = Fin False 1"
    then show ?thesis unfolding Some by (simp add: table_USD)
  next
    assume "r = Fin False (8286623314361713 / 9007199254740992)"
    then show ?thesis unfolding Some by (simp add: table_EUR)
  next
    assume "r = Fin False (889460926405673 / 1125899906842624)"
    then show ?thesis unfolding Some by (simp add: table_GBP)
  next
    assume "r = Fin False 150"
    then show ?thesis unfolding Some by (simp add: table_JPY)
  next
    assume "r = Fin False (6124895493223875 / 4503599627370496)"
    then show ?thesis unfolding Some by (simp add: table_CAD)
  next
    assume "r = Fin False (6710363444782039 / 4503599627370496)"
    then show ?thesis unfolding Some by (simp add: table_AUD)
  qed
qed

lemma scaled_keys: "map fst (map (\<lambda>(k, v). (k, g v)) d) = map fst d"
  by (induction d) auto

lemmas tables = table_USD table_EUR table_GBP table_JPY table_CAD table_AUD

text \<open>
  Claim C7. For a base \<open>B\<close> that is a key of the fallback table, the mapping that
  \<open>get_rates B\<close> returns when the live fetch fails or is skipped gives \<open>B\<close> the rate
  \<open>1.0\<close>.
\<close>

theorem base_rate_is_one:
  assumes "B \<in> set (map fst FALLBACK_RATES)" and "fetch_unavailable uu requests B"
  shows "\<exists>m v. get_rates uu requests B = Inr m \<and> map_of m B = Some v
            \<and> float_eq v (float_lit 1)"
proof -
  from assms(1) consider "B = ''USD''" | "B = ''EUR''" | "B = ''GBP''" | "B = ''JPY''"
    | "B = ''CAD''" | "B = ''AUD''"
    unfolding fallback_keys by auto
  then show ?thesis
  proof cases
    case 1
    have "map_of FALLBACK_RATES (upper uu B) = Some (Fin False 1)"
      unfolding 1 upper_keys by (simp add: fallback_values)
    then show ?thesis
      unfolding get_rates_unavailable [OF assms(2)] scaled_by_factor lit_1
      by (simp add: tables 1)
  next
    case 2
    have "map_of FALLBACK_RATES (upper uu B) = Some (Fin False (8286623314361713 / 9007199254740992))"
      unfolding 2 upper_keys by (simp add: fallback_values)
    then show ?thesis
      unfolding get_rates_unavailable [OF assms(2)] scaled_by_factor lit_1
      by (simp add: tables 2)
  next
    case 3
    have "map_of FALLBACK_RATES (upper uu B) = Some (Fin False (889460926405673 / 1125899906842624))"
      unfolding 3 upper_keys by (simp add: fallback_values)
    then show ?thesis
      unfolding get_rates_unavailable [OF assms(2)] scaled_by_factor lit_1
      by (simp add: tables 3)
  next
    case 4
    have "map_of FALLBACK_RATES (upper uu B) = Some (Fin False 150)"
      unfolding 4 upper_keys by (simp add: fallback_values)
    then show ?thesis
      unfolding get_rates_unavailable [OF assms(2)] scaled_by_factor lit_1
      by (simp add: tables 4)
  next
    case 5
    have "map_of FALLBACK_RATES (upper uu B) = Some (Fin False (6124895493223875 / 4503599627370496))"
      unfolding 5 upper_keys by (simp add: fallback_values)
    then show ?thesis
      unfolding get_rates_unavailable [OF assms(2)] scaled_by_factor lit_1
      by (simp add: tables 5)
  next
    case 6
    have "map_of FALLBACK_RATES (upper uu B) = Some (Fin False (6710363444782039 / 4503599627370496))"
      unfolding 6 upper_keys by (simp add: fallback_values)
    then show ?thesis
      unfolding get_rates_unavailable [OF assms(2)] scaled_by_factor lit_1
      by (simp add: tables 6)
  qed
qed

theorem base_rate_is_one_witness:
  "\<exists>m. get_rates id (Some (\<lambda>url. Inl RequestException)) ''EUR'' = Inr m
       \<and> map_of m ''EUR'' = Some (Fin False 1)
       \<and> map_of m ''USD'' = Some (Fin False (2447608493136139 / 2251799813685248))"
proof -
  have k: "''EUR'' \<in> set (map fst FALLBACK_RATES)" unfolding fallback_keys by simp
  from base_rate_is_one [OF k request_fails]
  obtain m v where m: "get_rates id (Some (\<lambda>url. Inl RequestException)) ''EUR'' = Inr m"
    and "map_of m ''EUR'' = Some v" by blast
  have "map_of FALLBACK_RATES (upper id ''EUR'')
          = Some (Fin False (8286623314361713 / 9007199254740992))"
    unfolding upper_keys by (simp add: fallback_values)
  then have "get_rates id (Some (\<lambda>url. Inl RequestException)) ''EUR'' =
      Inr (map (\<lambda>(k, v). (k, fdiv v (Fin False (8286623314361713 / 9007199254740992))))
             FALLBACK_RATES)"
    unfolding get_rates_unavailable [OF request_fails] scaled_by_factor by simp
  with m have "m = map (\<lambda>(k, v). (k, fdiv v (Fin False (8286623314361713 / 9007199254740992))))
             FALLBACK_RATES" by simp
  then have "map_of m ''EUR'' = Some (Fin False 1)
     \<and> map_of m ''USD'' = Some (Fin False (2447608493136139 / 2251799813685248))"
    unfolding table_EUR by simp
  with m show ?thesis by blast
qed

text \<open>
  Claim C8. When the live fetch is attempted and fails, \<open>get_rates\<close> returns the same
  mapping as when there is no HTTP library at all.
\<close>

theorem no_client_same_as_failed_fetch:
  assumes "fetch_live get (rates_url (upper uu base)) = Inl e"
  shows "get_rates uu (Some get) base = get_rates uu None base"
  using assms by (simp add: get_rates_def)

theorem no_client_same_as_failed_fetch_witness:
  "get_rates id (Some (\<lambda>url. Inr \<lparr>raise_for_status = Some HTTPError, json = Inl JSONDecodeError\<rparr>))
     ''gbp'' = get_rates id None ''gbp''"
proof -
  have "fetch_live (\<lambda>url. Inr \<lparr>raise_for_status = Some HTTPError, json = Inl JSONDecodeError\<rparr>)
          (rates_url (upper id ''gbp'')) = Inl HTTPError"
    by (simp add: fetch_live_def)
  then show ?thesis by (rule no_client_same_as_failed_fetch)
qed

text \<open>
  Claim C9. Whatever the base, the mapping returned when the live fetch fails or is
  skipped has the six keys USD, EUR, GBP, JPY, CAD, AUD, each once, and every value in it
  is greater than zero.
\<close>

theorem fallback_result_valid:
  assumes "fetch_unavailable uu requests base"
  shows "\<exists>m. get_rates uu requests base = Inr m
           \<and> map fst m = [''USD'', ''EUR'', ''GBP'', ''JPY'', ''CAD'', ''AUD'']
           \<and> (\<forall>k v. map_of m k = Some v \<longrightarrow> float_pos v)
           \<and> (\<forall>v \<in> snd ` set m. float_pos v)"
proof -
  let ?m = "map (\<lambda>(k', v). (k', fdiv v
      (case map_of FALLBACK_RATES (upper uu base) of Some r \<Rightarrow> r | None \<Rightarrow> Fin False 1)))
      FALLBACK_RATES"
  have g: "get_rates uu requests base = Inr ?m"
    unfolding get_rates_unavailable [OF assms] scaled_by_factor ..
  have keys: "map fst ?m = [''USD'', ''EUR'', ''GBP'', ''JPY'', ''CAD'', ''AUD'']"
    unfolding scaled_keys fallback_keys ..
  have pos: "\<forall>v \<in> snd ` set ?m. float_pos v"
    by (rule scaled_pos)
  have mp: "\<forall>k v. map_of ?m k = Some v \<longrightarrow> float_pos v"
  proof (intro allI impI)
    fix k v assume "map_of ?m k = Some v"
    then have "(k, v) \<in> set ?m" by (rule map_of_SomeD)
    then have "v \<in> snd ` set ?m" by force
    with pos show "float_pos v" by (rule bspec)
  qed
  show ?thesis by (rule exI [of _ ?m]) (intro conjI g keys mp pos)
qed

theorem fallback_result_valid_witness:
  "\<exists>m. get_rates id None ''jpy'' = Inr m
       \<and> map fst m = [''USD'', ''EUR'', ''GBP'', ''JPY'', ''CAD'', ''AUD'']
       \<and> (\<forall>v \<in> snd ` set m. float_pos v)"
proof -
  have "fetch_unavailable id None ''jpy''" by (simp add: fetch_unavailable_def)
  from fallback_result_valid [OF this] show ?thesis
    by (elim exE conjE) (intro exI conjI, assumption+)
qed

section \<open>Rounding in the converter\<close>

text \<open>A normal quotient or product comes from finite operands, and is accurate.\<close>

lemma round_normal:
  assumes "normal (round_to_double s q)"
  obtains r where "round_to_double s q = Fin s r" and "2 powi (- 1022) \<le> r"
    and "0 < q" and "\<bar>r - q\<bar> \<le> 2 powi (- 53) * r"
proof -
  from assms obtain s' r where rd: "round_to_double s q = Fin s' r"
    by (cases "round_to_double s q") auto
  with assms have nr: "2 powi (- 1022) \<le> r" by simp
  have s': "s' = s" using rd by (rule round_sign)
  have q: "0 < q" using rd nr by (rule round_normal_pos)
  have "\<bar>r - q\<bar> \<le> 2 powi (- 53) * r" using rd q nr by (rule round_error)
  with rd s' nr q show thesis by (auto intro: that)
qed

lemma fdiv_normal:
  assumes "normal (fdiv A B)"
  obtains s a t b r where "A = Fin s a" and "B = Fin t b"
    and "fdiv A B = Fin (s \<noteq> t) r" and "2 powi (- 1022) \<le> r"
    and "0 < a / b" and "\<bar>r - a / b\<bar> \<le> 2 powi (- 53) * r"
proof (cases A)
  case NaN
  with assms show ?thesis by simp
next
  case (Infinity s)
  with assms show ?thesis by (cases B) simp_all
next
  case A: (Fin s a)
  show ?thesis
  proof (cases B)
    case NaN
    with A assms show ?thesis by simp
  next
    case (Infinity t)
    with A assms have "(2::rat) powi (- 1022) \<le> 0" by simp
    moreover have "(0::rat) < 2 powi (- 1022)" by simp
    ultimately show ?thesis by linarith
  next
    case B: (Fin t b)
    from assms have "normal (round_to_double (s \<noteq> t) (a / b))" unfolding A B by simp
    then obtain r where "round_to_double (s \<noteq> t) (a / b) = Fin (s \<noteq> t) r"
      and "2 powi (- 1022) \<le> r" and "0 < a / b" and "\<bar>r - a / b\<bar> \<le> 2 powi (- 53) * r"
      by (rule round_normal)
    then show ?thesis using A B by (auto intro: that)
  qed
qed

lemma fmul_normal:
  assumes "normal (fmul A B)"
  obtains s a t b r where "A = Fin s a" and "B = Fin t b"
    and "fmul A B = Fin (s \<noteq> t) r" and "2 powi (- 1022) \<le> r"
    and "0 < a * b" and "\<bar>r - a * b\<bar> \<le> 2 powi (- 53) * r"
proof (cases A)
  case NaN
  with assms show ?thesis by simp
next
  case (Infinity s)
  with assms show ?thesis by (cases B) (simp_all split: if_splits)
next
  case A: (Fin s a)
  show ?thesis
  proof (cases B)
    case NaN
    with A assms show ?thesis by simp
  next
    case (Infinity t)
    with A assms show ?thesis by (simp split: if_splits)
  next
    case B: (Fin t b)
    from assms have "normal (round_to_double (s \<noteq> t) (a * b))" unfolding A B by simp
    then obtain r where "round_to_double (s \<noteq> t) (a * b) = Fin (s \<noteq> t) r"
      and "2 powi (- 1022) \<le> r" and "0 < a * b" and "\<bar>r - a * b\<bar> \<le> 2 powi (- 53) * r"
      by (rule round_normal)
    then show ?thesis using A B by (auto intro: that)
  qed
qed

lemma min_normal_pos: "(0::rat) < 2 powi (- 1022)"
  by simp

lemma abs_scale:
  fixes p q r c u :: rat
  assumes "0 < c" and "\<bar>p - q\<bar> \<le> u * r"
  shows "\<bar>p * c - q * c\<bar> \<le> u * (r * c)"
proof -
  have "\<bar>p * c - q * c\<bar> = \<bar>p - q\<bar> * c"
    using assms(1) by (simp add: abs_mult flip: left_diff_distrib)
  also have "\<dots> \<le> (u * r) * c" using assms by (simp add: mult_right_mono)
  finally show ?thesis by (simp add: mult.assoc)
qed

lemma u53: "(2::rat) powi (- 53) = 1 / 9007199254740992"
  by (simp add: two_powi_numeral)

lemma tol51: "(2::rat) powi (- 51) = 1 / 2251799813685248"
  by (simp add: two_powi_numeral)

lemma tol50: "(2::rat) powi (- 50) = 1 / 1125899906842624"
  by (simp add: two_powi_numeral)

lemma isclose_same_sign:
  assumes "0 < r" and "\<bar>r - a\<bar> \<le> tol * r"
  shows "isclose tol (Fin s r) (Fin s a)"
proof -
  have "\<bar>signed s r - signed s a\<bar> = \<bar>r - a\<bar>" by (cases s) auto
  moreover have "tol * r \<le> tol * max \<bar>r\<bar> \<bar>a\<bar>"
  proof -
    have "0 \<le> tol * r" using assms(2) by linarith
    then have "0 \<le> tol" using assms(1) by (simp add: zero_le_mult_iff)
    moreover have "r \<le> max \<bar>r\<bar> \<bar>a\<bar>" by linarith
    ultimately show ?thesis by (rule mult_left_mono [rotated])
  qed
  ultimately show ?thesis using assms(2) by simp
qed

text \<open>
  Claim C6, as the code has it. Converting an amount to its own currency divides by the
  rate and multiplies by it again, each time with a rounding: the result is within the
  relative tolerance \<open>2 powi - 51\<close> of the amount whenever the quotient and the product
  are normal doubles, not always equal to it.
\<close>

theorem identity_close:
  assumes key: "map_of R (upper uu X) = Some r"
    and n1: "normal (fdiv A r)"
    and n2: "normal (fmul (fdiv A r) r)"
  shows "\<exists>C. convert uu A X X R = Inr C \<and> isclose (2 powi (- 51)) C A"
proof -
  from n1 obtain s a t b r1 where A: "A = Fin s a" and r: "r = Fin t b"
    and d: "fdiv A r = Fin (s \<noteq> t) r1" and r1: "2 powi (- 1022) \<le> r1"
    and q1: "0 < a / b" and e1: "\<bar>r1 - a / b\<bar> \<le> 2 powi (- 53) * r1"
    by (rule fdiv_normal)
  have d': "fdiv A (Fin t b) = Fin (s \<noteq> t) r1" using d unfolding r .
  from n2 have "normal (fmul (Fin (s \<noteq> t) r1) (Fin t b))" unfolding r d' .
  then obtain r2 where m: "fmul (Fin (s \<noteq> t) r1) (Fin t b) = Fin ((s \<noteq> t) \<noteq> t) r2"
    and r2: "2 powi (- 1022) \<le> r2" and q2: "0 < r1 * b"
    and e2: "\<bar>r2 - r1 * b\<bar> \<le> 2 powi (- 53) * r2"
    by (rule fmul_normal) auto
  have r1pos: "0 < r1" using r1 min_normal_pos by linarith
  have r2pos: "0 < r2" using r2 min_normal_pos by linarith
  have bpos: "0 < b" using q2 r1pos by (simp add: zero_less_mult_iff)
  have "\<bar>r1 * b - a / b * b\<bar> \<le> 2 powi (- 53) * (r1 * b)"
    using bpos e1 by (rule abs_scale)
  then have e1': "\<bar>r1 * b - a\<bar> \<le> 2 powi (- 53) * (r1 * b)" using bpos by simp
  have close: "\<bar>r2 - a\<bar> \<le> 2 powi (- 51) * r2"
    using e1' e2 r2pos unfolding u53 tol51 by linarith
  have sgn: "((s \<noteq> t) \<noteq> t) = s" by auto
  have nz: "\<not> is_zero r" unfolding r using bpos by simp
  have "convert uu A X X R = Inr (fmul (fdiv A r) r)"
    using convert_present [OF key key, of A] nz by (simp add: truediv_def)
  then have c: "convert uu A X X R = Inr (Fin s r2)" unfolding r d' m sgn .
  have "isclose (2 powi (- 51)) (Fin s r2) A"
    unfolding A using r2pos close by (rule isclose_same_sign)
  with c show ?thesis by blast
qed

theorem identity_close_witness:
  "\<exists>C. convert id (Fin False 1) ''x'' ''x'' [(''X'', Fin False 49)] = Inr C
       \<and> isclose (2 powi (- 51)) C (Fin False 1)"
proof -
  have key: "map_of [(''X'', Fin False 49)] (upper id ''x'') = Some (Fin False 49)"
    by (simp add: upper_def is_ascii_def char_upper_def)
  have d: "fdiv (Fin False 1) (Fin False 49)
             = Fin False (5882252574524729 / 288230376151711744)"
    by (simp add: float_eval)
  have m: "fmul (Fin False (5882252574524729 / 288230376151711744)) (Fin False 49)
             = Fin False (9007199254740991 / 9007199254740992)"
    by (simp add: float_eval)
  have n1: "normal (fdiv (Fin False 1) (Fin False 49))"
    unfolding d by (simp add: two_powi_numeral)
  have n2: "normal (fmul (fdiv (Fin False 1) (Fin False 49)) (Fin False 49))"
    unfolding d m by (simp add: two_powi_numeral)
  from identity_close [OF key n1 n2] show ?thesis .
qed

text \<open>The identity fails at the amount \<open>1.0\<close> and the rate \<open>49.0\<close>, both doubles.\<close>

theorem identity_counterexample:
  "float_lit 1 = Fin False 1 \<and> float_lit 49 = Fin False 49
   \<and> map_of [(''X'', Fin False 49)] ''X'' = Some (Fin False 49)
   \<and> convert id (Fin False 1) ''X'' ''X'' [(''X'', Fin False 49)]
       = Inr (Fin False (9007199254740991 / 9007199254740992))
   \<and> \<not> float_eq (Fin False (9007199254740991 / 9007199254740992)) (Fin False 1)"
proof -
  have u: "upper id ''X'' = ''X''" by (simp add: upper_def is_ascii_def char_upper_def)
  have c: "convert id (Fin False 1) ''X'' ''X'' [(''X'', Fin False 49)]
       = Inr (Fin False (9007199254740991 / 9007199254740992))"
    by (simp add: convert_def dict_contains_def dict_getitem_def truediv_def u float_eval)
  have l: "float_lit 1 = Fin False 1" "float_lit 49 = Fin False 49"
    by (simp_all add: float_eval)
  from c l show ?thesis by simp
qed

text \<open>
  Claim C5, as the code has it. Converting from \<open>X\<close> to \<open>Y\<close> and back is four rounded
  operations: the result is within the relative tolerance \<open>2 powi - 50\<close> of the amount
  whenever the four intermediate results are normal doubles (which also makes the amount
  and both rates finite and not zero).
\<close>

theorem round_trip_close:
  assumes kx: "map_of R (upper uu X) = Some rx" and ky: "map_of R (upper uu Y) = Some ry"
    and n1: "normal (fdiv A rx)"
    and n2: "normal (fmul (fdiv A rx) ry)"
    and n3: "normal (fdiv (fmul (fdiv A rx) ry) ry)"
    and n4: "normal (fmul (fdiv (fmul (fdiv A rx) ry) ry) rx)"
  shows "\<exists>B C. convert uu A X Y R = Inr B \<and> convert uu B Y X R = Inr C
           \<and> isclose (2 powi (- 50)) C A"
proof -
  from n1 obtain s a tx x r1 where A: "A = Fin s a" and rx: "rx = Fin tx x"
    and d1: "fdiv A rx = Fin (s \<noteq> tx) r1" and r1: "2 powi (- 1022) \<le> r1"
    and q1: "0 < a / x" and e1: "\<bar>r1 - a / x\<bar> \<le> 2 powi (- 53) * r1"
    by (rule fdiv_normal)
  from n2 have "normal (fmul (Fin (s \<noteq> tx) r1) ry)" unfolding d1 .
  then obtain ty y r2 where ry: "ry = Fin ty y"
    and m2: "fmul (Fin (s \<noteq> tx) r1) ry = Fin ((s \<noteq> tx) \<noteq> ty) r2"
    and r2: "2 powi (- 1022) \<le> r2" and q2: "0 < r1 * y"
    and e2: "\<bar>r2 - r1 * y\<bar> \<le> 2 powi (- 53) * r2"
    by (rule fmul_normal) auto
  from n3 have "normal (fdiv (Fin ((s \<noteq> tx) \<noteq> ty) r2) (Fin ty y))"
    unfolding d1 m2 unfolding ry .
  then obtain r3 where
    d3: "fdiv (Fin ((s \<noteq> tx) \<noteq> ty) r2) (Fin ty y) = Fin (((s \<noteq> tx) \<noteq> ty) \<noteq> ty) r3"
    and r3: "2 powi (- 1022) \<le> r3" and q3: "0 < r2 / y"
    and e3: "\<bar>r3 - r2 / y\<bar> \<le> 2 powi (- 53) * r3"
    by (rule fdiv_normal) auto
  have m2': "fmul (Fin (s \<noteq> tx) r1) (Fin ty y) = Fin ((s \<noteq> tx) \<noteq> ty) r2"
    using m2 unfolding ry .
  have sg3: "(((s \<noteq> tx) \<noteq> ty) \<noteq> ty) = (s \<noteq> tx)" by auto
  from n4 have "normal (fmul (Fin (s \<noteq> tx) r3) (Fin tx x))"
    unfolding d1 unfolding ry m2' d3 sg3 unfolding rx .
  then obtain r4 where
    m4: "fmul (Fin (s \<noteq> tx) r3) (Fin tx x) = Fin ((s \<noteq> tx) \<noteq> tx) r4"
    and r4: "2 powi (- 1022) \<le> r4" and q4: "0 < r3 * x"
    and e4: "\<bar>r4 - r3 * x\<bar> \<le> 2 powi (- 53) * r4"
    by (rule fmul_normal) auto
  have sg4: "((s \<noteq> tx) \<noteq> tx) = s" by auto
  have r1pos: "0 < r1" using r1 min_normal_pos by linarith
  have r2pos: "0 < r2" using r2 min_normal_pos by linarith
  have r3pos: "0 < r3" using r3 min_normal_pos by linarith
  have r4pos: "0 < r4" using r4 min_normal_pos by linarith
  have ypos: "0 < y" using q2 r1pos by (simp add: zero_less_mult_iff)
  have xpos: "0 < x" using q4 r3pos by (simp add: zero_less_mult_iff)
  define p1 where "p1 = r1 * x"
  define w where "w = r2 / y * x"
  define z where "z = r3 * x"
  have "\<bar>r1 * x - a / x * x\<bar> \<le> 2 powi (- 53) * (r1 * x)"
    using xpos e1 by (rule abs_scale)
  then have f1: "\<bar>p1 - a\<bar> \<le> 2 powi (- 53) * p1" using xpos unfolding p1_def by simp
  have c: "0 < x / y" using xpos ypos by simp
  have "\<bar>r2 * (x / y) - r1 * y * (x / y)\<bar> \<le> 2 powi (- 53) * (r2 * (x / y))"
    using c e2 by (rule abs_scale)
  moreover have "r1 * y * (x / y) = p1" using ypos unfolding p1_def by simp
  moreover have "r2 * (x / y) = w" unfolding w_def by simp
  ultimately have f2: "\<bar>w - p1\<bar> \<le> 2 powi (- 53) * w" by simp
  have "\<bar>r3 * x - r2 / y * x\<bar> \<le> 2 powi (- 53) * (r3 * x)"
    using xpos e3 by (rule abs_scale)
  then have f3: "\<bar>z - w\<bar> \<le> 2 powi (- 53) * z" unfolding z_def w_def .
  have f4: "\<bar>r4 - z\<bar> \<le> 2 powi (- 53) * r4" using e4 unfolding z_def .
  have close: "\<bar>r4 - a\<bar> \<le> 2 powi (- 50) * r4"
    using f1 f2 f3 f4 r4pos unfolding u53 tol50 by linarith
  have nzx: "\<not> is_zero rx" unfolding rx using xpos by simp
  have nzy: "\<not> is_zero ry" unfolding ry using ypos by simp
  have "convert uu A X Y R = Inr (fmul (fdiv A rx) ry)"
    using convert_present [OF kx ky, of A] nzx by (simp add: truediv_def)
  then have c1: "convert uu A X Y R = Inr (Fin ((s \<noteq> tx) \<noteq> ty) r2)"
    unfolding d1 m2 .
  have "convert uu (Fin ((s \<noteq> tx) \<noteq> ty) r2) Y X R
          = Inr (fmul (fdiv (Fin ((s \<noteq> tx) \<noteq> ty) r2) ry) rx)"
    using convert_present [OF ky kx, of "Fin ((s \<noteq> tx) \<noteq> ty) r2"] nzy
    by (simp add: truediv_def)
  then have c2: "convert uu (Fin ((s \<noteq> tx) \<noteq> ty) r2) Y X R = Inr (Fin s r4)"
    unfolding ry d3 sg3 unfolding rx m4 sg4 .
  have "isclose (2 powi (- 50)) (Fin s r4) A"
    unfolding A using r4pos close by (rule isclose_same_sign)
  with c1 c2 show ?thesis by blast
qed

theorem round_trip_close_witness:
  "\<exists>B C. convert id (Fin False 100) ''usd'' ''eur'' FALLBACK_RATES = Inr B
         \<and> convert id B ''eur'' ''usd'' FALLBACK_RATES = Inr C
         \<and> isclose (2 powi (- 50)) C (Fin False 100)"
proof -
  have kx: "map_of FALLBACK_RATES (upper id ''usd'') = Some (Fin False 1)"
    by (simp add: fallback_values upper_def is_ascii_def char_upper_def)
  have ky: "map_of FALLBACK_RATES (upper id ''eur'')
              = Some (Fin False (8286623314361713 / 9007199254740992))"
    by (simp add: fallback_values upper_def is_ascii_def char_upper_def)
  have d1: "fdiv (Fin False 100) (Fin False 1) = Fin False 100"
    by (simp add: float_eval)
  have m2: "fmul (Fin False 100) (Fin False (8286623314361713 / 9007199254740992))
              = Fin False 92"
    by (simp add: float_eval)
  have d3: "fdiv (Fin False 92) (Fin False (8286623314361713 / 9007199254740992))
              = Fin False 100"
    by (simp add: float_eval)
  have m4: "fmul (Fin False 100) (Fin False 1) = Fin False 100"
    by (simp add: float_eval)
  have n1: "normal (fdiv (Fin False 100) (Fin False 1))"
    unfolding d1 by (simp add: two_powi_numeral)
  have n2: "normal (fmul (fdiv (Fin False 100) (Fin False 1))
              (Fin False (8286623314361713 / 9007199254740992)))"
    unfolding d1 m2 by (simp add: two_powi_numeral)
  have n3: "normal (fdiv (fmul (fdiv (Fin False 100) (Fin False 1))
              (Fin False (8286623314361713 / 9007199254740992)))
              (Fin False (8286623314361713 / 9007199254740992)))"
    unfolding d1 m2 d3 by (simp add: two_powi_numeral)
  have n4: "normal (fmul (fdiv (fmul (fdiv (Fin False 100) (Fin False 1))
              (Fin False (8286623314361713 / 9007199254740992)))
              (Fin False (8286623314361713 / 9007199254740992))) (Fin False 1))"
    unfolding d1 m2 d3 m4 by (simp add: two_powi_numeral)
  from round_trip_close [OF kx ky n1 n2 n3 n4] show ?thesis .
qed

text \<open>
  The round trip fails on overflow: the amount \<open>2 ^ 1023\<close> is a double, the rates
  \<open>1.0\<close> and \<open>2.0\<close> are positive, the conversion to \<open>Y\<close> is infinite, and so is
  the conversion back, which is within no relative tolerance of the amount.
\<close>

theorem round_trip_counterexample:
  "float_lit (2 ^ 1023) = Fin False (2 ^ 1023)
   \<and> convert id (Fin False (2 ^ 1023)) ''X'' ''Y'' [(''X'', Fin False 1), (''Y'', Fin False 2)]
       = Inr (Infinity False)
   \<and> convert id (Infinity False) ''Y'' ''X'' [(''X'', Fin False 1), (''Y'', Fin False 2)]
       = Inr (Infinity False)
   \<and> \<not> isclose (1 / 2) (Infinity False) (Fin False (2 ^ 1023))"
proof -
  have u: "upper id ''X'' = ''X''" "upper id ''Y'' = ''Y''"
    by (simp_all add: upper_def is_ascii_def char_upper_def)
  have l: "float_lit (2 ^ 1023) = Fin False (2 ^ 1023)"
    by (simp add: float_eval)
  have 1: "convert id (Fin False (2 ^ 1023)) ''X'' ''Y''
             [(''X'', Fin False 1), (''Y'', Fin False 2)] = Inr (Infinity False)"
    by (simp add: convert_def u dict_contains_def dict_getitem_def truediv_def float_eval)
  have 2: "convert id (Infinity False) ''Y'' ''X''
             [(''X'', Fin False 1), (''Y'', Fin False 2)] = Inr (Infinity False)"
    by (simp add: convert_def u dict_contains_def dict_getitem_def truediv_def)
  from l 1 2 show ?thesis by simp
qed

end
